theory Spec2Isabelle
  imports Main
begin

section \<open>Runes and strings\<close>

text \<open>
  A Go \<^verbatim>\<open>rune\<close> is an \<^verbatim>\<open>int32\<close> holding a Unicode code point; every value met
  below lies far inside the 32-bit range, so runes are integers. A Go string is
  modelled as the list of runes that \<^verbatim>\<open>bufio.Reader.ReadRune\<close> decodes from it, and
  the output buffer as the list of runes that \<^verbatim>\<open>bytes.Buffer.WriteRune\<close> appended.
\<close>

type_synonym rune = int

definition hyphen :: rune where
  "hyphen = 0x2D"

text \<open>The two rune literals of the composer: U+3147 (HANGUL LETTER IEUNG) and
  U+3161 (HANGUL LETTER EU), both of the Hangul Compatibility Jamo block.\<close>

definition ieung :: rune where
  "ieung = 0x3147"

definition eu :: rune where
  "eu = 0x3161"

section \<open>The functions of package \<^verbatim>\<open>hangul\<close> that the composer calls\<close>

text \<open>
  The composer imports \<^verbatim>\<open>github.com/suapapa/go_hangul\<close>, whose source is not part
  of the repository. Its five functions used here are modelled from the
  specification: the roles of a code point come from its Unicode block, a composed
  syllable is split by the offset arithmetic on \<open>codepoint - 0xAC00\<close>, and three
  components are joined by the inverse of that arithmetic. The Jamo of the input
  are code points of the Hangul Compatibility Jamo block (U+3131 .. U+3163), as the
  composer's own literals are; the package splits a syllable into conjoining Jamo of
  the Hangul Jamo block (leads from U+1100, vowels from U+1161, tails from U+11A8),
  and joins components of either block.
\<close>

text \<open>Modelled from the spec: the table of the 19 lead consonants, which belongs to
  the absent package \<^verbatim>\<open>hangul\<close>; position = lead index.\<close>

definition leads :: "rune list" where
  "leads = [0x3131, 0x3132, 0x3134, 0x3137, 0x3138, 0x3139, 0x3141, 0x3142, 0x3143,
            0x3145, 0x3146, 0x3147, 0x3148, 0x3149, 0x314A, 0x314B, 0x314C, 0x314D,
            0x314E]"

text \<open>Modelled from the spec: the table of the 28 tails of the absent package
  \<^verbatim>\<open>hangul\<close>; position = tail index, index 0 is the empty tail (rune 0).\<close>

definition tails :: "rune list" where
  "tails = [0, 0x3131, 0x3132, 0x3133, 0x3134, 0x3135, 0x3136, 0x3137, 0x3139, 0x313A,
            0x313B, 0x313C, 0x313D, 0x313E, 0x313F, 0x3140, 0x3141, 0x3142, 0x3144,
            0x3145, 0x3146, 0x3147, 0x3148, 0x314A, 0x314B, 0x314C, 0x314D, 0x314E]"

text \<open>Modelled from the spec: the index of a component, a lookup of the absent package
  \<^verbatim>\<open>hangul\<close>: the position of a rune in a table, if it occurs there.\<close>

fun jamo_index :: "rune \<Rightarrow> rune list \<Rightarrow> int option" where
  "jamo_index x [] = None"
| "jamo_index x (y # ys) =
     (if x = y then Some 0 else map_option (\<lambda>i. i + 1) (jamo_index x ys))"

text \<open>Modelled from the spec: the vowel index of a vowel of the absent package
  \<^verbatim>\<open>hangul\<close>; the 21 vowels U+314F .. U+3163 stand in index order.\<close>

definition medial_index :: "rune \<Rightarrow> int option" where
  "medial_index m = (if 0x314F \<le> m \<and> m \<le> 0x3163 then Some (m - 0x314F) else None)"

text \<open>Modelled from the spec: \<^verbatim>\<open>hangul.IsJaeum\<close>, absent from the sources; a consonant
  is a code point U+3131 .. U+314E of the compatibility block.\<close>

definition IsJaeum :: "rune \<Rightarrow> bool" where
  "IsJaeum ch \<longleftrightarrow> 0x3131 \<le> ch \<and> ch \<le> 0x314E"

text \<open>Modelled from the spec: \<^verbatim>\<open>hangul.IsMoeum\<close>, absent from the sources; a vowel is
  a code point U+314F .. U+3163 of the compatibility block.\<close>

definition IsMoeum :: "rune \<Rightarrow> bool" where
  "IsMoeum ch \<longleftrightarrow> 0x314F \<le> ch \<and> ch \<le> 0x3163"

text \<open>Modelled from the spec: \<^verbatim>\<open>hangul.IsHangul\<close>, absent from the sources; a composed
  syllable U+AC00 .. U+D7A3, a consonant or a vowel.\<close>

definition IsHangul :: "rune \<Rightarrow> bool" where
  "IsHangul ch \<longleftrightarrow> (0xAC00 \<le> ch \<and> ch \<le> 0xD7A3) \<or> IsJaeum ch \<or> IsMoeum ch"

text \<open>Go's integer division and remainder truncate towards zero; the divisors
  below are positive.\<close>

definition go_quo :: "int \<Rightarrow> int \<Rightarrow> int" where
  "go_quo a b = (if 0 \<le> a then a div b else - ((- a) div b))"

definition go_rem :: "int \<Rightarrow> int \<Rightarrow> int" where
  "go_rem a b = (if 0 \<le> a then a mod b else - ((- a) mod b))"

text \<open>Modelled from the spec: \<^verbatim>\<open>hangul.Split\<close>, absent from the sources. With
  \<open>i = ch - 0xAC00\<close> the tail index is \<open>i % 28\<close>, the vowel index \<open>(i / 28) % 21\<close> and
  the lead index \<open>i / (28 * 21)\<close>. The package returns the components as conjoining
  Jamo: the lead U+1100 + index, the vowel U+1161 + index, the tail U+11A7 + index,
  and 0 for no tail. So the lead of a null-onset syllable is U+110B, not the
  compatibility letter U+3147 of the composer's literal. The arithmetic is not
  guarded: a rune outside U+AC00 .. U+D7A3 gives components outside the Jamo blocks,
  of which the composer only ever compares the lead with its literal.\<close>

definition Split :: "rune \<Rightarrow> rune \<times> rune \<times> rune" where
  "Split ch =
     (let i = ch - 0xAC00;
          l = go_quo i (28 * 21);
          m = go_rem (go_quo i 28) 21;
          t = go_rem i 28
      in (0x1100 + l, 0x1161 + m, if t \<noteq> 0 then 0x11A7 + t else 0))"

text \<open>Modelled from the spec: the indices of the components that \<^verbatim>\<open>hangul.Join\<close>,
  absent from the sources, accepts: a conjoining Jamo by its offset in its block, a
  compatibility Jamo by its position in the table, rune 0 as the empty tail.\<close>

definition lead_index :: "rune \<Rightarrow> int option" where
  "lead_index l =
     (if 0x1100 \<le> l \<and> l \<le> 0x1112 then Some (l - 0x1100) else jamo_index l leads)"

definition vowel_index :: "rune \<Rightarrow> int option" where
  "vowel_index m =
     (if 0x1161 \<le> m \<and> m \<le> 0x1175 then Some (m - 0x1161) else medial_index m)"

definition tail_index :: "rune \<Rightarrow> int option" where
  "tail_index t =
     (if 0x11A8 \<le> t \<and> t \<le> 0x11C2 then Some (t - 0x11A7) else jamo_index t tails)"

text \<open>Modelled from the spec: \<^verbatim>\<open>hangul.Join\<close>, absent from the sources: the inverse of
  the offset arithmetic of \<open>Split\<close>. The specification gives no value for a component
  that has no index (a consonant cluster as lead, a doubled consonant as tail); the
  model returns U+FFFD, the replacement character, there.\<close>

definition Join :: "rune \<Rightarrow> rune \<Rightarrow> rune \<Rightarrow> rune" where
  "Join l m t =
     (case (lead_index l, vowel_index m, tail_index t) of
        (Some li, Some mi, Some ti) \<Rightarrow> 0xAC00 + (li * 21 + mi) * 28 + ti
      | _ \<Rightarrow> 0xFFFD)"

section \<open>The composer\<close>

definition lead :: int where
  "lead = 0"

definition medial :: int where
  "medial = 1"

definition tail :: int where
  "tail = 2"

text \<open>The only error of \<^verbatim>\<open>ReadRune\<close> on a string reader is the end of the input.\<close>

datatype error = EOF

text \<open>The struct \<^verbatim>\<open>composer\<close>: \<open>r\<close> is the input not yet read, \<open>buf\<close> the output
  written so far, \<open>lmt\<close> the array \<^verbatim>\<open>[3]rune\<close> of buffered Jamo, 0 for an empty
  slot.\<close>

record composer =
  r :: "rune list"
  buf :: "rune list"
  lmt :: "rune \<times> rune \<times> rune"

text \<open>Reading and writing \<^verbatim>\<open>c.lmt[i]\<close>. The source indexes the array with the
  constants 0, 1, 2 and with a score that is one of them.\<close>

fun lmt_at :: "rune \<times> rune \<times> rune \<Rightarrow> int \<Rightarrow> rune" where
  "lmt_at (l, m, t) i = (if i = 0 then l else if i = 1 then m else t)"

fun lmt_upd :: "rune \<times> rune \<times> rune \<Rightarrow> int \<Rightarrow> rune \<Rightarrow> rune \<times> rune \<times> rune" where
  "lmt_upd (l, m, t) i v =
     (if i = 0 then (v, m, t) else if i = 1 then (l, v, t) else (l, m, v))"

text \<open>The loop of \<^verbatim>\<open>read\<close>: a hyphen sets \<open>isTail\<close> and is skipped; at the end of
  the input the result is \<open>(0, false, err)\<close> whatever \<open>isTail\<close> was.\<close>

fun read_loop :: "bool \<Rightarrow> rune list \<Rightarrow> (rune \<times> bool \<times> error option) \<times> rune list" where
  "read_loop isTail [] = ((0, False, Some EOF), [])"
| "read_loop isTail (ch # rest) =
     (if ch = hyphen then read_loop True rest else ((ch, isTail, None), rest))"

definition read :: "composer \<Rightarrow> (rune \<times> bool \<times> error option) \<times> composer" where
  "read c = (case read_loop False (r c) of (res, rest) \<Rightarrow> (res, c\<lparr>r := rest\<rparr>))"

text \<open>The method \<^verbatim>\<open>write\<close> of the composer (named \<open>write_lmt\<close> here, \<open>write\<close>
  being a keyword of Isabelle).\<close>

definition write_lmt :: "composer \<Rightarrow> composer" where
  "write_lmt c =
     (if lmt c = (0, 0, 0) then c
      else
        (let l = (if lmt_at (lmt c) lead = 0 then ieung else lmt_at (lmt c) lead);
             m = (if lmt_at (lmt c) medial = 0 then eu else lmt_at (lmt c) medial);
             letter = Join l m (lmt_at (lmt c) tail)
         in c\<lparr>buf := buf c @ [letter], lmt := (0, 0, 0)\<rparr>))"

definition analyzeHangul :: "rune \<Rightarrow> bool \<times> bool \<times> bool \<times> bool" where
  "analyzeHangul ch =
     (if \<not> IsHangul ch then (False, False, False, False)
      else (True, IsJaeum ch, IsMoeum ch, \<not> IsJaeum ch \<and> \<not> IsMoeum ch))"

text \<open>One pass through the body of the \<^verbatim>\<open>for\<close> loop of \<^verbatim>\<open>Compose\<close>. The loop
  state is the composer with the variables \<open>score\<close> and \<open>prevScore\<close>; the pass ends
  in \<^verbatim>\<open>continue\<close> (or the end of the body) or in \<^verbatim>\<open>break\<close>.\<close>

datatype 'a step = Continue 'a | Break 'a

definition Compose_iter :: "composer \<times> int \<times> int \<Rightarrow> (composer \<times> int \<times> int) step" where
  "Compose_iter s =
     (case s of (c0, score, _) \<Rightarrow>
        let prevScore = score in
        (case read c0 of ((ch, isTail, err), c) \<Rightarrow>
           if lmt_at (lmt c) lead \<noteq> 0 \<and> lmt_at (lmt c) medial = 0 \<and> fst (Split ch) = ieung
           then
             (case Split ch of (ld, md, tl') \<Rightarrow>
                Continue (c\<lparr>lmt := lmt_upd (lmt_upd (lmt c) medial md) tail tl'\<rparr>,
                          score, prevScore))
           else if err \<noteq> None then Break (c, score, prevScore)
           else
             (case analyzeHangul ch of (isHangul, _, isMoeum, isComposed) \<Rightarrow>
                if \<not> isHangul then
                  (let c1 = (if prevScore \<noteq> - 1 then write_lmt c else c)
                   in Continue (c1\<lparr>buf := buf c1 @ [ch]\<rparr>, score, - 1))
                else if isComposed then
                  (case Split ch of (ld, md, tl') \<Rightarrow>
                     let c1 =
                       (if lmt_at (lmt c) lead \<noteq> 0 \<and> lmt_at (lmt c) medial = 0 \<and> ld = ieung
                        then c\<lparr>lmt := lmt_upd (lmt_upd (lmt c) medial md) tail tl'\<rparr>
                        else
                          (let c2 = write_lmt c
                           in c2\<lparr>lmt := lmt_upd (lmt_upd (lmt_upd (lmt c2) lead ld)
                                                   medial md) tail tl'\<rparr>))
                     in Continue (c1, tail, prevScore))
                else
                  (let score = (if isMoeum then medial else if isTail then tail else lead);
                       c1 = (if score \<le> prevScore \<and>
                                \<not> (score = tail \<and> prevScore = medial \<and>
                                   lmt_at (lmt c) tail = 0)
                             then write_lmt c else c);
                       c2 = (if score \<noteq> - 1 then c1\<lparr>lmt := lmt_upd (lmt c1) score ch\<rparr>
                             else c1)
                   in Continue (c2, score, prevScore)))))"

lemma read_loop_length:
  "read_loop b xs = ((ch, t, None), rest) \<Longrightarrow> length rest < length xs"
proof (induction xs arbitrary: b)
  case Nil
  then show ?case by simp
next
  case (Cons x xs)
  show ?case
  proof (cases "x = hyphen")
    case True
    with Cons.prems have "read_loop True xs = ((ch, t, None), rest)" by simp
    then have "length rest < length xs" by (rule Cons.IH)
    then show ?thesis by simp
  next
    case False
    with Cons.prems show ?thesis by auto
  qed
qed

lemma read_loop_eof:
  "read_loop b xs = ((ch, t, Some e), rest) \<Longrightarrow> ch = 0"
  by (induction xs arbitrary: b) (auto split: if_splits)

lemma write_lmt_r [simp]: "r (write_lmt c) = r c"
  by (simp add: write_lmt_def Let_def)

lemma Split_zero [simp]: "fst (Split 0) \<noteq> ieung"
  by (simp add: Split_def Let_def go_quo_def ieung_def)

lemma Compose_iter_decreases:
  assumes "Compose_iter (c, score, p) = Continue (c', score', p')"
  shows "length (r c') < length (r c)"
proof -
  obtain ch isTail err rest where rl: "read_loop False (r c) = ((ch, isTail, err), rest)"
    by (metis prod_cases3 surj_pair)
  show ?thesis
  proof (cases err)
    case None
    with rl have "length rest < length (r c)"
      by (simp add: read_loop_length)
    with assms rl show ?thesis
      by (auto simp: Compose_iter_def read_def Let_def split: prod.splits if_splits)
  next
    case (Some e)
    with rl have "ch = 0"
      by (simp add: read_loop_eof)
    with assms rl Some show ?thesis
      by (auto simp: Compose_iter_def read_def Let_def split: prod.splits if_splits)
  qed
qed

text \<open>The \<^verbatim>\<open>for\<close> loop of \<^verbatim>\<open>Compose\<close>.\<close>

function Compose_loop :: "composer \<times> int \<times> int \<Rightarrow> composer \<times> int \<times> int" where
  "Compose_loop s =
     (case Compose_iter s of Continue s' \<Rightarrow> Compose_loop s' | Break s' \<Rightarrow> s')"
  by pat_completeness auto
termination
  by (relation "measure (\<lambda>(c, _, _). length (r c))") (auto dest: Compose_iter_decreases)

declare Compose_loop.simps [simp del]

text \<open>\<^verbatim>\<open>Compose\<close>: \<open>score\<close> and \<open>prevScore\<close> start at 0, Go's zero value; after the
  loop the last letter is written unless \<open>prevScore\<close> is -1.\<close>

definition Compose :: "composer \<Rightarrow> rune list" where
  "Compose c =
     (case Compose_loop (c, 0, 0) of (c', score, prevScore) \<Rightarrow>
        buf (if prevScore \<noteq> - 1 then write_lmt c' else c'))"

definition ComposeHangul :: "rune list \<Rightarrow> rune list" where
  "ComposeHangul word = Compose \<lparr>r = word, buf = [], lmt = (0, 0, 0)\<rparr>"

section \<open>Decomposed and precomposed words\<close>

text \<open>A standard Hangul syllable is given by its lead index (below 19), its vowel index
  (below 21) and its tail index (below 28, 0 for no tail). These three definitions
  follow the words of the specification, not the code: they state what the composer is
  compared with.\<close>

definition standard_syllable :: "nat \<times> nat \<times> nat \<Rightarrow> bool" where
  "standard_syllable s = (case s of (li, vi, ti) \<Rightarrow> li < 19 \<and> vi < 21 \<and> ti < 28)"

text \<open>The decomposed form: the lead, the vowel and, if there is a tail, the marker and
  the tail consonant.\<close>

definition decomposed :: "nat \<times> nat \<times> nat \<Rightarrow> rune list" where
  "decomposed s =
     (case s of (li, vi, ti) \<Rightarrow>
        [leads ! li, 0x314F + int vi] @ (if ti = 0 then [] else [hyphen, tails ! ti]))"

text \<open>The precomposed form: the code point of the Unicode composition formula.\<close>

definition precomposed :: "nat \<times> nat \<times> nat \<Rightarrow> rune" where
  "precomposed s = (case s of (li, vi, ti) \<Rightarrow> 0xAC00 + (int li * 21 + int vi) * 28 + int ti)"

section \<open>Package \<^verbatim>\<open>english\<close>: the dictionary lookup\<close>

text \<open>\<^verbatim>\<open>unicode.IsSpace\<close>, which \<^verbatim>\<open>strings.Fields\<close> splits at.\<close>

definition IsSpace :: "rune \<Rightarrow> bool" where
  "IsSpace ch \<longleftrightarrow>
     ch \<in> {0x09, 0x0A, 0x0B, 0x0C, 0x0D, 0x20, 0x85, 0xA0, 0x1680, 0x2028, 0x2029, 0x202F,
           0x205F, 0x3000} \<or> (0x2000 \<le> ch \<and> ch \<le> 0x200A)"

text \<open>\<^verbatim>\<open>strings.Fields\<close>: the maximal runs of runes that are not white space; \<open>cur\<close> is
  the field being read.\<close>

fun fields_from :: "rune list \<Rightarrow> rune list \<Rightarrow> rune list list" where
  "fields_from cur [] = (if cur = [] then [] else [cur])"
| "fields_from cur (ch # rest) =
     (if IsSpace ch then (if cur = [] then fields_from [] rest else cur # fields_from [] rest)
      else fields_from (cur @ [ch]) rest)"

definition strings_Fields :: "rune list \<Rightarrow> rune list list" where
  "strings_Fields s = fields_from [] s"

text \<open>\<^verbatim>\<open>strings.Trim\<close>: the leading and the trailing runes of the cutset are removed.\<close>

definition strings_Trim :: "rune list \<Rightarrow> rune list \<Rightarrow> rune list" where
  "strings_Trim s cutset =
     rev (dropWhile (\<lambda>ch. ch \<in> set cutset) (rev (dropWhile (\<lambda>ch. ch \<in> set cutset) s)))"

fun strings_Join :: "rune list list \<Rightarrow> rune list \<Rightarrow> rune list" where
  "strings_Join [] sep = []"
| "strings_Join [a] sep = a"
| "strings_Join (a # b # elems) sep = a @ sep @ strings_Join (b # elems) sep"

text \<open>The cutset of \<^verbatim>\<open>Transliterate\<close>: the ten runes \<^verbatim>\<open>. , ! ? ; : " ' ( )\<close>.\<close>

definition cutset :: "rune list" where
  "cutset = [0x2E, 0x2C, 0x21, 0x3F, 0x3B, 0x3A, 0x22, 0x27, 0x28, 0x29]"

text \<open>\<^verbatim>\<open>Transliterate\<close>. The dictionary \<open>dict\<close> is what \<^verbatim>\<open>loadDictionary\<close> made of the
  embedded file \<^verbatim>\<open>cmudict.dict\<close>, which is not among the sources, and \<open>ToLower\<close> is
  \<^verbatim>\<open>strings.ToLower\<close>, whose Unicode case tables are not either: both are parameters.
  The second component of the result is the returned error, always \<^verbatim>\<open>nil\<close>.\<close>

definition Transliterate ::
  "(rune list \<Rightarrow> rune list) \<Rightarrow> (rune list \<rightharpoonup> rune list) \<Rightarrow> rune list
     \<Rightarrow> rune list \<times> error option" where
  "Transliterate ToLower dict word =
     (let words = strings_Fields word;
          result =
            map (\<lambda>w. let cleanWord = ToLower (strings_Trim w cutset)
                      in (case dict cleanWord of Some phonetic \<Rightarrow> phonetic | None \<Rightarrow> w))
              words
      in (strings_Join result [0x20], None))"

section \<open>Facts about the tables and the offset arithmetic\<close>

lemma jamo_index_nth:
  "distinct xs \<Longrightarrow> n < length xs \<Longrightarrow> jamo_index (xs ! n) xs = Some (int n)"
proof (induction xs arbitrary: n)
  case Nil
  then show ?case by simp
next
  case (Cons x xs)
  show ?case
  proof (cases n)
    case 0
    then show ?thesis by simp
  next
    case (Suc k)
    with Cons.prems have "k < length xs" and "distinct xs" and "xs ! k \<noteq> x"
      by auto
    with Cons.IH [of k] Suc show ?thesis by simp
  qed
qed

lemma jamo_index_nonneg: "jamo_index x xs = Some i \<Longrightarrow> 0 \<le> i"
  by (induction xs arbitrary: i) (auto split: if_splits)

lemma length_leads: "length leads = 19"
  by (simp add: leads_def)

lemma distinct_leads: "distinct leads"
  by (simp add: leads_def)

lemma length_tails: "length tails = 28"
  by (simp add: tails_def)

lemma distinct_tails: "distinct tails"
  by (simp add: tails_def)

lemma leads_Jaeum: "\<forall>x \<in> set leads. IsJaeum x"
  by (simp add: leads_def IsJaeum_def)

lemma tails_Jaeum: "\<forall>x \<in> set (tl tails). IsJaeum x"
  by (simp add: tails_def IsJaeum_def)

lemma nth_leads_Jaeum: "li < 19 \<Longrightarrow> IsJaeum (leads ! li)"
  using leads_Jaeum by (simp add: length_leads)

lemma nth_tails_Jaeum: "0 < ti \<Longrightarrow> ti < 28 \<Longrightarrow> IsJaeum (tails ! ti)"
proof -
  assume a: "0 < ti" "ti < 28"
  then have "tails ! ti = tl tails ! (ti - 1)"
    by (simp add: nth_tl length_tails)
  moreover from a have "ti - 1 < length (tl tails)"
    by (simp add: length_tails)
  ultimately show ?thesis
    using tails_Jaeum by (metis nth_mem)
qed

lemma Moeum_index: "vi < 21 \<Longrightarrow> IsMoeum (0x314F + int vi)"
  by (simp add: IsMoeum_def)

lemma Join_nth:
  assumes "li < 19" "vi < 21" "ti < 28"
  shows "Join (leads ! li) (0x314F + int vi) (tails ! ti) = precomposed (li, vi, ti)"
proof -
  have "\<not> (0x1100 \<le> leads ! li \<and> leads ! li \<le> 0x1112)"
    using nth_leads_Jaeum [OF assms(1)] by (simp add: IsJaeum_def)
  then have l: "lead_index (leads ! li) = Some (int li)"
    using assms by (auto simp: lead_index_def jamo_index_nth distinct_leads length_leads)
  have "\<not> (0x11A8 \<le> tails ! ti \<and> tails ! ti \<le> 0x11C2)"
  proof (cases "ti = 0")
    case True
    then show ?thesis by (simp add: tails_def)
  next
    case False
    with assms(3) have "IsJaeum (tails ! ti)" by (simp add: nth_tails_Jaeum)
    then show ?thesis by (simp add: IsJaeum_def)
  qed
  then have t: "tail_index (tails ! ti) = Some (int ti)"
    using assms by (auto simp: tail_index_def jamo_index_nth distinct_tails length_tails)
  have m: "vowel_index (0x314F + int vi) = Some (int vi)"
    using assms by (simp add: vowel_index_def medial_index_def)
  show ?thesis
    by (simp add: Join_def l m t precomposed_def)
qed

section \<open>One pass of the loop, case by case\<close>

lemma Compose_loop_Continue: "Compose_iter s = Continue s' \<Longrightarrow> Compose_loop s = Compose_loop s'"
  by (subst Compose_loop.simps) simp

lemma Compose_loop_Break: "Compose_iter s = Break s' \<Longrightarrow> Compose_loop s = s'"
  by (subst Compose_loop.simps) simp

text \<open>No rune has a split lead equal to the composer's literal U+3147: up to the
  largest code point U+10FFFF the lead is at most U+1100 + 1820.\<close>

lemma Split_lead_rune:
  assumes "ch \<le> 0x10FFFF"
  shows "fst (Split ch) \<noteq> ieung"
proof (cases "0xAC00 \<le> ch")
  case True
  then have "(ch - 0xAC00) div 588 \<le> 1820"
    using assms by arith
  with True show ?thesis
    by (simp add: Split_def Let_def go_quo_def ieung_def)
next
  case False
  then have "0 \<le> (0xAC00 - ch) div 588"
    by simp
  with False show ?thesis
    by (simp add: Split_def Let_def go_quo_def ieung_def)
qed

lemma Split_Jamo: "IsJaeum ch \<or> IsMoeum ch \<Longrightarrow> fst (Split ch) \<noteq> ieung"
  by (rule Split_lead_rune) (auto simp: IsJaeum_def IsMoeum_def)

lemma read_fields:
  "read c = (res, c1) \<Longrightarrow> buf c1 = buf c \<and> lmt c1 = lmt c"
  by (auto simp: read_def split: prod.splits)

lemma read_Nil: "r c = [] \<Longrightarrow> read c = ((0, False, Some EOF), c)"
  by (simp add: read_def)

lemma read_Cons:
  "r c = ch # rest \<Longrightarrow> ch \<noteq> hyphen \<Longrightarrow> read c = ((ch, False, None), c\<lparr>r := rest\<rparr>)"
  by (simp add: read_def)

lemma read_marked:
  "r c = hyphen # ch # rest \<Longrightarrow> ch \<noteq> hyphen \<Longrightarrow> read c = ((ch, True, None), c\<lparr>r := rest\<rparr>)"
  by (simp add: read_def)

lemma Jamo_not_hyphen: "IsJaeum ch \<or> IsMoeum ch \<Longrightarrow> ch \<noteq> hyphen"
  by (auto simp: IsJaeum_def IsMoeum_def hyphen_def)

lemma Compose_iter_jamo:
  assumes "read c = ((ch, isTail, None), c1)" and "IsJaeum ch \<or> IsMoeum ch"
  shows "Compose_iter (c, sc, p) =
     (let score = (if IsMoeum ch then medial else if isTail then tail else lead);
          c2 = (if score \<le> sc \<and> \<not> (score = tail \<and> sc = medial \<and> lmt_at (lmt c1) tail = 0)
                then write_lmt c1 else c1)
      in Continue (c2\<lparr>lmt := lmt_upd (lmt c2) score ch\<rparr>, score, sc))"
proof -
  have "fst (Split ch) \<noteq> ieung" using assms(2) by (rule Split_Jamo)
  moreover have "IsHangul ch" using assms(2) by (auto simp: IsHangul_def)
  moreover have "\<not> (IsJaeum ch \<and> IsMoeum ch)" by (auto simp: IsJaeum_def IsMoeum_def)
  ultimately show ?thesis
    using assms
    by (auto simp: Compose_iter_def Let_def analyzeHangul_def lead_def medial_def tail_def)
qed

lemma Compose_iter_eof:
  assumes "read c = ((ch, isTail, Some e), c1)"
  shows "Compose_iter (c, sc, p) = Break (c1, sc, sc)"
proof -
  from assms have "ch = 0"
    by (auto simp: read_def split: prod.splits dest: read_loop_eof)
  with assms show ?thesis
    by (simp add: Compose_iter_def Let_def)
qed

lemma Compose_iter_nonhangul:
  assumes "read c = ((ch, isTail, None), c1)" and "\<not> IsHangul ch"
    and "lmt_at (lmt c1) lead = 0 \<or> lmt_at (lmt c1) medial \<noteq> 0"
  shows "Compose_iter (c, sc, p) =
     (let c2 = (if sc \<noteq> - 1 then write_lmt c1 else c1)
      in Continue (c2\<lparr>buf := buf c2 @ [ch]\<rparr>, sc, - 1))"
  using assms
  by (auto simp: Compose_iter_def Let_def analyzeHangul_def)

lemma lmt_upd_all: "lmt_upd (lmt_upd (lmt_upd x lead a) medial b) tail d = (a, b, d)"
  by (cases x) (simp add: lead_def medial_def tail_def)

lemma Compose_iter_composed:
  assumes "read c = ((ch, isTail, None), c1)" and "0xAC00 \<le> ch" and "ch \<le> 0xD7A3"
  shows "Compose_iter (c, sc, p) = Continue ((write_lmt c1)\<lparr>lmt := Split ch\<rparr>, tail, sc)"
proof -
  have "IsHangul ch" "\<not> IsJaeum ch" "\<not> IsMoeum ch"
    using assms(2,3) by (auto simp: IsHangul_def IsJaeum_def IsMoeum_def)
  moreover have "fst (Split ch) \<noteq> ieung"
    using assms(3) by (intro Split_lead_rune) simp
  ultimately show ?thesis
    using assms(1)
    by (auto simp: Compose_iter_def Let_def analyzeHangul_def lmt_upd_all split: prod.splits)
qed

section \<open>The loop, one token at a time\<close>

lemma loop_prev: "Compose_loop (c, sc, p) = Compose_loop (c, sc, p')"
proof -
  have "Compose_iter (c, sc, p) = Compose_iter (c, sc, p')"
    by (simp add: Compose_iter_def)
  then show ?thesis
    by (simp add: Compose_loop.simps [of "(c, sc, p)"] Compose_loop.simps [of "(c, sc, p')"])
qed

lemma loop_eof: "r c = [] \<Longrightarrow> Compose_loop (c, sc, p) = (c, sc, sc)"
  by (rule Compose_loop_Break) (simp add: Compose_iter_eof [OF read_Nil])

lemma lmt_write_lmt: "lmt (write_lmt c) = (0, 0, 0)"
  by (simp add: write_lmt_def Let_def)

lemma loop_lead:
  assumes "IsJaeum ch" and "0 \<le> sc" and "r c = ch # rest"
  shows "Compose_loop (c, sc, p) =
         Compose_loop ((write_lmt c)\<lparr>r := rest, lmt := (ch, 0, 0)\<rparr>, lead, sc)"
proof -
  have ch: "ch \<noteq> hyphen" "\<not> IsMoeum ch"
    using assms(1) by (auto simp: IsJaeum_def IsMoeum_def hyphen_def)
  have w: "write_lmt (c\<lparr>r := rest\<rparr>) = (write_lmt c)\<lparr>r := rest\<rparr>"
    by (simp add: write_lmt_def Let_def)
  show ?thesis
    apply (rule Compose_loop_Continue)
    using assms(1,2) ch
    by (simp add: Compose_iter_jamo [OF read_Cons [OF assms(3) ch(1)]] Let_def w lmt_write_lmt
        lead_def medial_def tail_def)
qed

lemma loop_medial:
  assumes "IsMoeum ch" and "sc = lead" and "r c = ch # rest"
  shows "Compose_loop (c, sc, p) =
         Compose_loop (c\<lparr>r := rest, lmt := lmt_upd (lmt c) medial ch\<rparr>, medial, sc)"
proof -
  have ch: "ch \<noteq> hyphen"
    using assms(1) by (auto simp: IsMoeum_def hyphen_def)
  show ?thesis
    apply (rule Compose_loop_Continue)
    using assms(1,2)
    by (simp add: Compose_iter_jamo [OF read_Cons [OF assms(3) ch]] Let_def
        lead_def medial_def tail_def)
qed

lemma loop_medial_flush:
  assumes "IsMoeum ch" and "medial \<le> sc" and "r c = ch # rest"
  shows "Compose_loop (c, sc, p) =
         Compose_loop ((write_lmt c)\<lparr>r := rest, lmt := (0, ch, 0)\<rparr>, medial, sc)"
proof -
  have ch: "ch \<noteq> hyphen"
    using assms(1) by (auto simp: IsMoeum_def hyphen_def)
  have w: "write_lmt (c\<lparr>r := rest\<rparr>) = (write_lmt c)\<lparr>r := rest\<rparr>"
    by (simp add: write_lmt_def Let_def)
  show ?thesis
    apply (rule Compose_loop_Continue)
    using assms(1,2)
    by (simp add: Compose_iter_jamo [OF read_Cons [OF assms(3) ch]] Let_def w lmt_write_lmt
        lead_def medial_def tail_def)
qed

lemma loop_tail:
  assumes "IsJaeum ch" and "sc < tail" and "r c = hyphen # ch # rest"
  shows "Compose_loop (c, sc, p) =
         Compose_loop (c\<lparr>r := rest, lmt := lmt_upd (lmt c) tail ch\<rparr>, tail, sc)"
proof -
  have ch: "ch \<noteq> hyphen" "\<not> IsMoeum ch"
    using assms(1) by (auto simp: IsJaeum_def IsMoeum_def hyphen_def)
  show ?thesis
    apply (rule Compose_loop_Continue)
    using assms(1,2) ch
    by (simp add: Compose_iter_jamo [OF read_marked [OF assms(3) ch(1)]] Let_def
        lead_def medial_def tail_def)
qed

section \<open>The loop on decomposed words\<close>

lemma loop_syllable:
  assumes ok: "standard_syllable (li, vi, ti)" and sc: "0 \<le> sc"
    and rc: "r c = decomposed (li, vi, ti) @ rest"
  shows "Compose_loop (c, sc, p) =
         Compose_loop ((write_lmt c)\<lparr>r := rest,
                          lmt := (leads ! li, 0x314F + int vi, tails ! ti)\<rparr>,
                       if ti = 0 then medial else tail, 0)"
proof -
  from ok have li: "li < 19" and vi: "vi < 21" and ti: "ti < 28"
    by (simp_all add: standard_syllable_def)
  let ?l = "leads ! li" and ?v = "0x314F + int vi" and ?t = "tails ! ti"
  let ?tailpart = "(if ti = 0 then [] else [hyphen, ?t]) @ rest"
  have rc': "r c = ?l # ?v # ?tailpart"
    using rc by (simp add: decomposed_def)
  let ?c1 = "(write_lmt c)\<lparr>r := ?v # ?tailpart, lmt := (?l, 0, 0)\<rparr>"
  let ?c2 = "(write_lmt c)\<lparr>r := ?tailpart, lmt := (?l, ?v, 0)\<rparr>"
  have "Compose_loop (c, sc, p) = Compose_loop (?c1, lead, sc)"
    using nth_leads_Jaeum [OF li] sc rc' by (rule loop_lead)
  also have "\<dots> = Compose_loop (?c1\<lparr>r := ?tailpart, lmt := lmt_upd (lmt ?c1) medial ?v\<rparr>, medial, lead)"
    by (rule loop_medial [OF Moeum_index [OF vi]]) simp_all
  also have "\<dots> = Compose_loop (?c2, medial, 0)"
    by (simp add: medial_def loop_prev [of _ _ lead 0])
  finally have two: "Compose_loop (c, sc, p) = Compose_loop (?c2, medial, 0)" .
  show ?thesis
  proof (cases "ti = 0")
    case True
    with two show ?thesis by (simp add: tails_def)
  next
    case False
    with ti have "IsJaeum ?t" by (simp add: nth_tails_Jaeum)
    then have "Compose_loop (?c2, medial, 0) =
        Compose_loop (?c2\<lparr>r := rest, lmt := lmt_upd (lmt ?c2) tail ?t\<rparr>, tail, medial)"
      by (rule loop_tail) (simp_all add: False medial_def tail_def)
    also have "\<dots> = Compose_loop ((write_lmt c)\<lparr>r := rest, lmt := (?l, ?v, ?t)\<rparr>, tail, 0)"
      by (simp add: tail_def loop_prev [of _ _ medial 0])
    finally show ?thesis using two False by simp
  qed
qed

lemma buf_write_lmt_syllable:
  assumes "standard_syllable (li, vi, ti)"
  shows "buf (write_lmt (c\<lparr>lmt := (leads ! li, 0x314F + int vi, tails ! ti)\<rparr>)) =
         buf c @ [precomposed (li, vi, ti)]"
proof -
  from assms have li: "li < 19" and vi: "vi < 21" and ti: "ti < 28"
    by (simp_all add: standard_syllable_def)
  have "leads ! li \<noteq> 0"
    using nth_leads_Jaeum [OF li] by (auto simp: IsJaeum_def)
  then show ?thesis
    using vi by (simp add: write_lmt_def Let_def lead_def medial_def tail_def Join_nth [OF li vi ti])
qed

lemma loop_word:
  assumes "list_all standard_syllable w" and "0 \<le> sc" and "r c = concat (map decomposed w)"
  shows "\<exists>c' sc'. Compose_loop (c, sc, p) = (c', sc', sc') \<and> 0 \<le> sc' \<and>
           buf (write_lmt c') = buf (write_lmt c) @ map precomposed w"
  using assms
proof (induction w arbitrary: c sc p)
  case Nil
  then show ?case by (simp add: loop_eof)
next
  case (Cons s w)
  obtain li vi ti where s: "s = (li, vi, ti)" by (cases s)
  let ?c1 = "(write_lmt c)\<lparr>r := concat (map decomposed w),
                lmt := (leads ! li, 0x314F + int vi, tails ! ti)\<rparr>"
  let ?sc1 = "if ti = 0 then medial else tail"
  from Cons.prems s have ok: "standard_syllable (li, vi, ti)" and okw: "list_all standard_syllable w"
    by simp_all
  have "Compose_loop (c, sc, p) = Compose_loop (?c1, ?sc1, 0)"
    using ok Cons.prems(2) by (rule loop_syllable) (simp add: Cons.prems(3) s)
  moreover have "0 \<le> ?sc1" by (simp add: medial_def tail_def)
  moreover have "r ?c1 = concat (map decomposed w)" by simp
  ultimately obtain c' sc' where
    "Compose_loop (c, sc, p) = (c', sc', sc')" "0 \<le> sc'"
    "buf (write_lmt c') = buf (write_lmt ?c1) @ map precomposed w"
    using Cons.IH [OF okw, of ?sc1 ?c1 0] by auto
  moreover have "buf (write_lmt ?c1) = buf (write_lmt c) @ [precomposed s]"
  proof -
    have "write_lmt ?c1 = (write_lmt ((write_lmt c)\<lparr>lmt := (leads ! li, 0x314F + int vi, tails ! ti)\<rparr>))
           \<lparr>r := concat (map decomposed w)\<rparr>"
      by (simp add: write_lmt_def Let_def)
    then show ?thesis by (simp add: buf_write_lmt_syllable [OF ok] s)
  qed
  ultimately show ?case by auto
qed

section \<open>The loop on text without Hangul\<close>

lemma read_loop_filter:
  "read_loop b xs = ((ch, t, None), rest) \<Longrightarrow>
     ch \<noteq> hyphen \<and> filter (\<lambda>x. x \<noteq> hyphen) xs = ch # filter (\<lambda>x. x \<noteq> hyphen) rest \<and>
     ch \<in> set xs \<and> set rest \<subseteq> set xs"
proof (induction xs arbitrary: b)
  case Nil
  then show ?case by simp
next
  case (Cons x xs)
  show ?case
  proof (cases "x = hyphen")
    case True
    with Cons.prems have "read_loop True xs = ((ch, t, None), rest)" by simp
    from Cons.IH [OF this] True show ?thesis by auto
  next
    case False
    with Cons.prems show ?thesis by auto
  qed
qed

lemma read_loop_filter_eof:
  "read_loop b xs = ((ch, t, Some e), rest) \<Longrightarrow> filter (\<lambda>x. x \<noteq> hyphen) xs = [] \<and> rest = []"
proof (induction xs arbitrary: b)
  case Nil
  then show ?case by simp
next
  case (Cons x xs)
  show ?case
  proof (cases "x = hyphen")
    case True
    with Cons.prems have "read_loop True xs = ((ch, t, Some e), rest)" by simp
    from Cons.IH [OF this] True show ?thesis by auto
  next
    case False
    with Cons.prems show ?thesis by auto
  qed
qed

lemma read_cases:
  obtains (eof) ch isTail e where "read c = ((ch, isTail, Some e), c\<lparr>r := []\<rparr>)"
      "filter (\<lambda>x. x \<noteq> hyphen) (r c) = []"
  | (rune) ch isTail rest where "read c = ((ch, isTail, None), c\<lparr>r := rest\<rparr>)"
      "ch \<noteq> hyphen" "filter (\<lambda>x. x \<noteq> hyphen) (r c) = ch # filter (\<lambda>x. x \<noteq> hyphen) rest"
      "ch \<in> set (r c)" "set rest \<subseteq> set (r c)" "length rest < length (r c)"
proof -
  obtain ch isTail err rest where rl: "read_loop False (r c) = ((ch, isTail, err), rest)"
    by (metis prod_cases3 surj_pair)
  show thesis
  proof (cases err)
    case None
    with rl read_loop_filter [of False "r c" ch isTail rest] read_loop_length [of False "r c" ch isTail rest]
    show ?thesis by (intro rune [of ch isTail rest]) (simp_all add: read_def)
  next
    case (Some e)
    with rl read_loop_filter_eof [of False "r c" ch isTail e rest]
    show ?thesis by (intro eof [of ch isTail e]) (simp_all add: read_def)
  qed
qed

lemma write_lmt_empty: "lmt c = (0, 0, 0) \<Longrightarrow> write_lmt c = c"
  by (simp add: write_lmt_def)

lemma loop_nonhangul:
  assumes "\<forall>ch \<in> set (r c). \<not> IsHangul ch" and "lmt c = (0, 0, 0)"
  shows "\<exists>c' sc' p'. Compose_loop (c, sc, p) = (c', sc', p') \<and> lmt c' = (0, 0, 0) \<and>
           buf c' = buf c @ filter (\<lambda>x. x \<noteq> hyphen) (r c)"
  using assms
proof (induction "length (r c)" arbitrary: c sc p rule: less_induct)
  case less
  show ?case
  proof (cases c rule: read_cases)
    case (eof ch isTail e)
    have "Compose_loop (c, sc, p) = (c\<lparr>r := []\<rparr>, sc, sc)"
      by (rule Compose_loop_Break) (rule Compose_iter_eof [OF eof(1)])
    with eof(2) less.prems(2) show ?thesis by simp
  next
    case (rune ch isTail rest)
    let ?c1 = "c\<lparr>r := rest, buf := buf c @ [ch]\<rparr>"
    from rune(4) less.prems(1) have nh: "\<not> IsHangul ch" by blast
    have "Compose_iter (c, sc, p) = Continue (?c1, sc, - 1)"
      using less.prems(2)
      by (subst Compose_iter_nonhangul [OF rune(1) nh])
        (simp_all add: Let_def write_lmt_empty lead_def)
    then have step: "Compose_loop (c, sc, p) = Compose_loop (?c1, sc, - 1)"
      by (rule Compose_loop_Continue)
    have "\<exists>c' sc' p'. Compose_loop (?c1, sc, - 1) = (c', sc', p') \<and> lmt c' = (0, 0, 0) \<and>
           buf c' = buf ?c1 @ filter (\<lambda>x. x \<noteq> hyphen) (r ?c1)"
      using rune(5,6) less.prems by (intro less.hyps) auto
    with step rune(3) show ?thesis by auto
  qed
qed

section \<open>No hyphen is ever written\<close>

lemma Join_not_hyphen: "Join l m t \<noteq> hyphen"
proof -
  have "0xAC00 \<le> Join l m t \<or> Join l m t = 0xFFFD"
    by (auto simp: Join_def lead_index_def vowel_index_def tail_index_def medial_index_def
        split: option.splits if_splits dest!: jamo_index_nonneg)
  then show ?thesis by (auto simp: hyphen_def)
qed

lemma write_lmt_no_hyphen: "hyphen \<notin> set (buf c) \<Longrightarrow> hyphen \<notin> set (buf (write_lmt c))"
  by (simp add: write_lmt_def Let_def Join_not_hyphen [symmetric])

lemma Compose_iter_no_hyphen:
  assumes "Compose_iter (c, sc, p) = Continue (c', sc', p') \<or>
           Compose_iter (c, sc, p) = Break (c', sc', p')"
    and "hyphen \<notin> set (buf c)"
  shows "hyphen \<notin> set (buf c')"
proof (cases c rule: read_cases)
  case (eof ch isTail e)
  with assms show ?thesis
    by (auto simp: Compose_iter_eof [OF eof(1)])
next
  case (rune ch isTail rest)
  let ?c1 = "c\<lparr>r := rest\<rparr>"
  have w: "hyphen \<notin> set (buf (write_lmt ?c1))" "hyphen \<notin> set (buf ?c1)"
    using assms(2) write_lmt_no_hyphen [of ?c1] by simp_all
  from assms(1) rune(1,2) w show ?thesis
    by (auto simp: Compose_iter_def Let_def split: prod.splits if_splits)
qed

lemma loop_no_hyphen:
  "hyphen \<notin> set (buf (fst s)) \<Longrightarrow> hyphen \<notin> set (buf (fst (Compose_loop s)))"
proof (induction s rule: Compose_loop.induct)
  case (1 s)
  obtain c sc p where s: "s = (c, sc, p)" by (cases s)
  show ?case
  proof (cases "Compose_iter s")
    case (Continue s')
    obtain c' sc' p' where s': "s' = (c', sc', p')" by (cases s')
    from Continue s s' "1.prems" have "hyphen \<notin> set (buf (fst s'))"
      using Compose_iter_no_hyphen [of c sc p c' sc' p'] by simp
    with "1.IH" [OF Continue] Continue show ?thesis
      by (simp add: Compose_loop_Continue)
  next
    case (Break s')
    obtain c' sc' p' where s': "s' = (c', sc', p')" by (cases s')
    from Break s s' "1.prems" have "hyphen \<notin> set (buf (fst s'))"
      using Compose_iter_no_hyphen [of c sc p c' sc' p'] by simp
    with Break show ?thesis
      by (simp add: Compose_loop_Break)
  qed
qed

section \<open>The loop on precomposed syllables\<close>

lemma Split_syllable:
  assumes "0xAC00 \<le> ch" and "ch \<le> 0xD7A3"
  shows "\<exists>li vi ti. standard_syllable (li, vi, ti) \<and>
           Split ch = (0x1100 + int li, 0x1161 + int vi,
                       if ti = 0 then 0 else 0x11A7 + int ti) \<and>
           precomposed (li, vi, ti) = ch"
proof -
  define i where "i = ch - 0xAC00"
  have i: "0 \<le> i" "i < 11172" using assms by (simp_all add: i_def)
  define q where "q = i div 28"
  have q: "0 \<le> q" "q < 399" using i by (simp_all add: q_def)
  have l: "i div (28 * 21) = q div 21"
    unfolding q_def by (simp add: zdiv_zmult2_eq)
  let ?li = "nat (q div 21)" and ?vi = "nat (q mod 21)" and ?ti = "nat (i mod 28)"
  have a: "int ?li = q div 21" "int ?vi = q mod 21" "int ?ti = i mod 28"
    using q i by simp_all
  have "?li < 19" using q by arith
  moreover have "?vi < 21" by arith
  moreover have "?ti < 28" by arith
  ultimately have "standard_syllable (?li, ?vi, ?ti)"
    by (simp add: standard_syllable_def)
  moreover have "Split ch = (0x1100 + int ?li, 0x1161 + int ?vi,
                             if ?ti = 0 then 0 else 0x11A7 + int ?ti)"
  proof -
    have "go_quo i (28 * 21) = q div 21" "go_quo i 28 = q" "go_rem q 21 = q mod 21"
      "go_rem i 28 = i mod 28"
      using i q l by (simp_all add: go_quo_def go_rem_def q_def)
    moreover have "(?ti = 0) = (i mod 28 = 0)"
    proof -
      have "0 \<le> i mod 28" by simp
      then show ?thesis by arith
    qed
    ultimately show ?thesis
      unfolding a by (simp add: Split_def Let_def i_def [symmetric] del: nat_eq_iff nat_0_iff)
  qed
  moreover have "precomposed (?li, ?vi, ?ti) = ch"
  proof -
    have "q div 21 * 21 + q mod 21 = q"
      by (rule div_mult_mod_eq)
    moreover have "q * 28 + i mod 28 = i"
      unfolding q_def by (rule div_mult_mod_eq)
    ultimately have "(int ?li * 21 + int ?vi) * 28 + int ?ti = i"
      unfolding a by (simp only:)
    then have "0xAC00 + (int ?li * 21 + int ?vi) * 28 + int ?ti = ch"
      by (simp add: i_def)
    then show ?thesis
      by (simp only: precomposed_def prod.case)
  qed
  ultimately show ?thesis by blast
qed

lemma Join_conjoining:
  assumes "standard_syllable (li, vi, ti)"
  shows "Join (0x1100 + int li) (0x1161 + int vi) (if ti = 0 then 0 else 0x11A7 + int ti) =
         precomposed (li, vi, ti)"
  using assms
  by (simp add: Join_def lead_index_def vowel_index_def tail_index_def standard_syllable_def
      precomposed_def tails_def)

lemma buf_write_lmt_conjoining:
  assumes "standard_syllable (li, vi, ti)"
  shows "buf (write_lmt (c\<lparr>lmt := (0x1100 + int li, 0x1161 + int vi,
                                  if ti = 0 then 0 else 0x11A7 + int ti)\<rparr>)) =
         buf c @ [precomposed (li, vi, ti)]"
  using Join_conjoining [OF assms]
  by (simp add: write_lmt_def Let_def lead_def medial_def tail_def)

lemma loop_composed:
  assumes ch: "0xAC00 \<le> ch" "ch \<le> 0xD7A3" and rc: "r c = ch # rest"
  shows "Compose_loop (c, sc, p) = Compose_loop ((write_lmt c)\<lparr>r := rest, lmt := Split ch\<rparr>, tail, sc)"
proof -
  have nh: "ch \<noteq> hyphen" using ch by (simp add: hyphen_def)
  have w: "write_lmt (c\<lparr>r := rest\<rparr>) = (write_lmt c)\<lparr>r := rest\<rparr>"
    by (simp add: write_lmt_def Let_def)
  show ?thesis
    by (rule Compose_loop_Continue)
      (simp add: Compose_iter_composed [OF read_Cons [OF rc nh] ch] w)
qed

lemma loop_composed_word:
  assumes "list_all (\<lambda>ch. 0xAC00 \<le> ch \<and> ch \<le> 0xD7A3) w" and "0 \<le> sc" and "r c = w"
    and "lmt_at (lmt c) lead = 0 \<or> lmt_at (lmt c) medial \<noteq> 0"
  shows "\<exists>c' sc'. Compose_loop (c, sc, p) = (c', sc', sc') \<and> 0 \<le> sc' \<and>
           buf (write_lmt c') = buf (write_lmt c) @ w"
  using assms
proof (induction w arbitrary: c sc p)
  case Nil
  then show ?case by (simp add: loop_eof)
next
  case (Cons ch w)
  from Cons.prems(1) have ch: "0xAC00 \<le> ch" "ch \<le> 0xD7A3" and okw: "list_all (\<lambda>ch. 0xAC00 \<le> ch \<and> ch \<le> 0xD7A3) w"
    by simp_all
  from Split_syllable [OF ch] obtain li vi ti where
    s: "standard_syllable (li, vi, ti)"
      "Split ch = (0x1100 + int li, 0x1161 + int vi, if ti = 0 then 0 else 0x11A7 + int ti)"
      "precomposed (li, vi, ti) = ch"
    by blast
  let ?c1 = "(write_lmt c)\<lparr>r := w, lmt := Split ch\<rparr>"
  have step: "Compose_loop (c, sc, p) = Compose_loop (?c1, tail, sc)"
    using ch Cons.prems(3) by (rule loop_composed)
  have "lmt_at (lmt ?c1) lead = 0 \<or> lmt_at (lmt ?c1) medial \<noteq> 0"
    by (simp add: s(2) medial_def lead_def)
  with Cons.IH [OF okw, of tail ?c1 sc] obtain c' sc' where
    "Compose_loop (?c1, tail, sc) = (c', sc', sc')" "0 \<le> sc'"
    "buf (write_lmt c') = buf (write_lmt ?c1) @ w"
    by (auto simp: tail_def)
  moreover have "buf (write_lmt ?c1) = buf (write_lmt c) @ [ch]"
  proof -
    have "write_lmt ?c1 =
        (write_lmt ((write_lmt c)\<lparr>lmt := (0x1100 + int li, 0x1161 + int vi,
                                         if ti = 0 then 0 else 0x11A7 + int ti)\<rparr>))
           \<lparr>r := w\<rparr>"
      by (simp add: write_lmt_def Let_def s(2))
    then show ?thesis by (simp add: buf_write_lmt_conjoining [OF s(1)] s(3))
  qed
  ultimately show ?case using step by auto
qed

section \<open>Short inputs\<close>

lemma buf_write_lmt_fill:
  assumes "(l, m, t) \<noteq> (0, 0, 0)"
  shows "buf (write_lmt (c\<lparr>lmt := (l, m, t)\<rparr>)) =
         buf c @ [Join (if l = 0 then ieung else l) (if m = 0 then eu else m) t]"
  using assms by (simp add: write_lmt_def Let_def lead_def medial_def tail_def)

lemma ieung_lead: "ieung = leads ! 11"
  by (simp add: ieung_def leads_def)

lemma eu_vowel: "eu = 0x314F + int 18"
  by (simp add: eu_def)

lemma no_tail: "0 = tails ! 0"
  by (simp add: tails_def)

lemma Compose_from_loop:
  assumes "Compose_loop (\<lparr>r = w, buf = [], lmt = (0, 0, 0)\<rparr>, 0, 0) = (c', sc', p')" and "p' \<noteq> - 1"
  shows "ComposeHangul w = buf (write_lmt c')"
  using assms by (simp add: ComposeHangul_def Compose_def)

lemma ComposeHangul_decomposed:
  assumes "list_all standard_syllable w"
  shows "ComposeHangul (concat (map decomposed w)) = map precomposed w"
proof -
  let ?c = "\<lparr>r = concat (map decomposed w), buf = [], lmt = (0, 0, 0)\<rparr>"
  obtain c' sc' where "Compose_loop (?c, 0, 0) = (c', sc', sc')" "0 \<le> sc'"
    "buf (write_lmt c') = buf (write_lmt ?c) @ map precomposed w"
    using loop_word [OF assms, of 0 ?c 0] by auto
  then show ?thesis
    by (simp add: ComposeHangul_def Compose_def write_lmt_def)
qed

lemma nth_leads_nonzero: "li < 19 \<Longrightarrow> leads ! li \<noteq> 0"
  using nth_leads_Jaeum [of li] by (auto simp: IsJaeum_def)

lemma ComposeHangul_two_vowels:
  assumes "li < 19" "vi < 21" "vj < 21"
  shows "ComposeHangul [leads ! li, 0x314F + int vi, 0x314F + int vj] =
         [precomposed (li, vi, 0), precomposed (11, vj, 0)]"
proof -
  let ?l = "leads ! li" and ?v = "0x314F + int vi" and ?v' = "0x314F + int vj"
  let ?c0 = "\<lparr>r = [?l, ?v, ?v'], buf = [], lmt = (0, 0, 0)\<rparr>"
  let ?c1 = "\<lparr>r = [?v'], buf = [], lmt = (?l, ?v, 0)\<rparr>"
  let ?c2 = "\<lparr>r = [], buf = [precomposed (li, vi, 0)], lmt = (0, ?v', 0)\<rparr>"
  have ok: "standard_syllable (li, vi, 0)" "standard_syllable (11, vj, 0)"
    using assms by (simp_all add: standard_syllable_def)
  have w1: "write_lmt ?c1 = \<lparr>r = [?v'], buf = [precomposed (li, vi, 0)], lmt = (0, 0, 0)\<rparr>"
    using nth_leads_nonzero [OF assms(1)] Join_nth [OF assms(1,2), of 0]
    by (simp add: write_lmt_def Let_def lead_def medial_def tail_def no_tail [symmetric])
  have "Compose_loop (?c0, 0, 0) =
        Compose_loop ((write_lmt ?c0)\<lparr>r := [?v'], lmt := (?l, ?v, tails ! 0)\<rparr>,
                      if (0::nat) = 0 then medial else tail, 0)"
    by (rule loop_syllable [OF ok(1)]) (simp_all add: decomposed_def)
  also have "\<dots> = Compose_loop (?c1, medial, 0)"
    by (simp add: write_lmt_empty no_tail [symmetric])
  also have "\<dots> = Compose_loop ((write_lmt ?c1)\<lparr>r := [], lmt := (0, ?v', 0)\<rparr>, medial, medial)"
    by (rule loop_medial_flush [OF Moeum_index [OF assms(3)]]) simp_all
  also have "\<dots> = Compose_loop (?c2, medial, medial)"
    by (simp add: w1)
  also have "\<dots> = (?c2, medial, medial)"
    by (rule loop_eof) simp
  finally have "ComposeHangul [?l, ?v, ?v'] = buf (write_lmt ?c2)"
    by (rule Compose_from_loop) (simp add: medial_def)
  also have "\<dots> = [precomposed (li, vi, 0), precomposed (11, vj, 0)]"
    using Join_nth [of 11 vj 0] assms(3)
    by (simp add: write_lmt_def Let_def lead_def medial_def tail_def ieung_lead
        no_tail [symmetric])
  finally show ?thesis .
qed

lemma ComposeHangul_unmarked:
  assumes "li < 19" "vi < 21" "lj < 19"
  shows "ComposeHangul [leads ! li, 0x314F + int vi, leads ! lj] =
         [precomposed (li, vi, 0), precomposed (lj, 18, 0)]"
proof -
  let ?l = "leads ! li" and ?v = "0x314F + int vi" and ?l' = "leads ! lj"
  let ?c0 = "\<lparr>r = [?l, ?v, ?l'], buf = [], lmt = (0, 0, 0)\<rparr>"
  let ?c1 = "\<lparr>r = [?l'], buf = [], lmt = (?l, ?v, 0)\<rparr>"
  let ?c2 = "\<lparr>r = [], buf = [precomposed (li, vi, 0)], lmt = (?l', 0, 0)\<rparr>"
  have ok: "standard_syllable (li, vi, 0)"
    using assms by (simp_all add: standard_syllable_def)
  have w1: "write_lmt ?c1 = \<lparr>r = [?l'], buf = [precomposed (li, vi, 0)], lmt = (0, 0, 0)\<rparr>"
    using nth_leads_nonzero [OF assms(1)] Join_nth [OF assms(1,2), of 0]
    by (simp add: write_lmt_def Let_def lead_def medial_def tail_def no_tail [symmetric])
  have "Compose_loop (?c0, 0, 0) =
        Compose_loop ((write_lmt ?c0)\<lparr>r := [?l'], lmt := (?l, ?v, tails ! 0)\<rparr>,
                      if (0::nat) = 0 then medial else tail, 0)"
    by (rule loop_syllable [OF ok]) (simp_all add: decomposed_def)
  also have "\<dots> = Compose_loop (?c1, medial, 0)"
    by (simp add: write_lmt_empty no_tail [symmetric])
  also have "\<dots> = Compose_loop ((write_lmt ?c1)\<lparr>r := [], lmt := (?l', 0, 0)\<rparr>, lead, medial)"
    by (rule loop_lead [OF nth_leads_Jaeum [OF assms(3)]]) (simp_all add: medial_def)
  also have "\<dots> = Compose_loop (?c2, lead, medial)"
    by (simp add: w1)
  also have "\<dots> = (?c2, lead, lead)"
    by (rule loop_eof) simp
  finally have "ComposeHangul [?l, ?v, ?l'] = buf (write_lmt ?c2)"
    by (rule Compose_from_loop) (simp add: lead_def)
  also have "\<dots> = [precomposed (li, vi, 0), precomposed (lj, 18, 0)]"
    using Join_nth [of lj 18 0] assms(3) nth_leads_nonzero [OF assms(3)]
    by (simp add: write_lmt_def Let_def lead_def medial_def tail_def eu_def
        no_tail [symmetric])
  finally show ?thesis .
qed

lemma ComposeHangul_marked:
  assumes "li < 19" "vi < 21" "0 < ti" "ti < 28"
  shows "ComposeHangul [leads ! li, 0x314F + int vi, hyphen, tails ! ti] = [precomposed (li, vi, ti)]"
  using ComposeHangul_decomposed [of "[(li, vi, ti)]"] assms
  by (simp add: standard_syllable_def decomposed_def)

lemma ComposeHangul_bare_lead:
  assumes "li < 19"
  shows "ComposeHangul [leads ! li] = [precomposed (li, 18, 0)]"
proof -
  let ?l = "leads ! li"
  let ?c0 = "\<lparr>r = [?l], buf = [], lmt = (0, 0, 0)\<rparr>"
  let ?c1 = "\<lparr>r = [], buf = [], lmt = (?l, 0, 0)\<rparr>"
  have "Compose_loop (?c0, 0, 0) = Compose_loop ((write_lmt ?c0)\<lparr>r := [], lmt := (?l, 0, 0)\<rparr>, lead, 0)"
    by (rule loop_lead [OF nth_leads_Jaeum [OF assms]]) simp_all
  also have "\<dots> = Compose_loop (?c1, lead, 0)"
    by (simp add: write_lmt_empty)
  also have "\<dots> = (?c1, lead, lead)"
    by (rule loop_eof) simp
  finally have "ComposeHangul [?l] = buf (write_lmt ?c1)"
    by (rule Compose_from_loop) (simp add: lead_def)
  also have "\<dots> = [precomposed (li, 18, 0)]"
    using Join_nth [of li 18 0] assms nth_leads_nonzero [OF assms]
    by (simp add: write_lmt_def Let_def lead_def medial_def tail_def eu_def no_tail [symmetric])
  finally show ?thesis .
qed

lemma ComposeHangul_bare_vowel:
  assumes "vi < 21"
  shows "ComposeHangul [0x314F + int vi] = [precomposed (11, vi, 0)]"
proof -
  let ?v = "0x314F + int vi"
  let ?c0 = "\<lparr>r = [?v], buf = [], lmt = (0, 0, 0)\<rparr>"
  let ?c1 = "\<lparr>r = [], buf = [], lmt = (0, ?v, 0)\<rparr>"
  have "Compose_loop (?c0, 0, 0) = Compose_loop (?c0\<lparr>r := [], lmt := lmt_upd (lmt ?c0) medial ?v\<rparr>, medial, 0)"
    by (rule loop_medial [OF Moeum_index [OF assms]]) (simp_all add: lead_def)
  also have "\<dots> = Compose_loop (?c1, medial, 0)"
    by (simp add: medial_def)
  also have "\<dots> = (?c1, medial, medial)"
    by (rule loop_eof) simp
  finally have "ComposeHangul [?v] = buf (write_lmt ?c1)"
    by (rule Compose_from_loop) (simp add: medial_def)
  also have "\<dots> = [precomposed (11, vi, 0)]"
    using Join_nth [of 11 vi 0] assms
    by (simp add: write_lmt_def Let_def lead_def medial_def tail_def ieung_lead no_tail [symmetric])
  finally show ?thesis .
qed

section \<open>Fields of a word without white space\<close>

lemma fields_from_no_space:
  "\<forall>ch \<in> set w. \<not> IsSpace ch \<Longrightarrow> fields_from cur w = (if cur @ w = [] then [] else [cur @ w])"
  by (induction w arbitrary: cur) auto

lemma strings_Fields_no_space:
  "\<forall>ch \<in> set w. \<not> IsSpace ch \<Longrightarrow> strings_Fields w = (if w = [] then [] else [w])"
  using fields_from_no_space [of w "[]"] by (simp add: strings_Fields_def)

section \<open>The claims\<close>

text \<open>
  C1. For every word of standard Hangul syllables, composing its decomposed Jamo
  sequence (each syllable's lead, its vowel and, where it has a tail, the marker and
  the tail consonant) gives exactly the word's precomposed code points. The witness is
  the example of the package documentation: U+3148 U+314F U+3141 U+3157 composes to
  U+C790 U+BAA8.
\<close>

theorem C1_round_trip:
  assumes "list_all standard_syllable w"
  shows "ComposeHangul (concat (map decomposed w)) = map precomposed w"
proof -
  let ?c = "\<lparr>r = concat (map decomposed w), buf = [], lmt = (0, 0, 0)\<rparr>"
  obtain c' sc' where "Compose_loop (?c, 0, 0) = (c', sc', sc')" "0 \<le> sc'"
    "buf (write_lmt c') = buf (write_lmt ?c) @ map precomposed w"
    using loop_word [OF assms, of 0 ?c 0] by auto
  then show ?thesis
    by (simp add: ComposeHangul_def Compose_def write_lmt_def)
qed

theorem C1_round_trip_witness:
  "ComposeHangul [0x3148, 0x314F, 0x3141, 0x3157] = [0xC790, 0xBAA8]"
  using C1_round_trip [of "[(12, 0, 0), (6, 8, 0)]"]
  by (simp add: standard_syllable_def decomposed_def precomposed_def leads_def)

text \<open>
  C2. When the read rune is a decomposed Jamo (a consonant or a vowel), its score is 1
  for a vowel, 2 for a marked consonant and 0 otherwise, and the buffer is flushed
  before the rune is stored exactly when the score is at most the score left by the
  earlier passes, except when the score is tail, that earlier score is medial and the
  tail slot is empty. Hence a lead, a vowel and a marked tail compose to the one
  syllable made of the three, and a lead followed by two vowels composes to two
  syllables: the lead with the first vowel and no tail, then the second vowel with the
  null-onset lead.
\<close>

theorem C2_flush_rule:
  "(\<forall>c ch isTail c1 sc p.
      read c = ((ch, isTail, None), c1) \<and> (IsJaeum ch \<or> IsMoeum ch)
      \<longrightarrow> Compose_iter (c, sc, p) =
            (let score = (if IsMoeum ch then medial else if isTail then tail else lead);
                 flush = (score \<le> sc \<and>
                          \<not> (score = tail \<and> sc = medial \<and> lmt_at (lmt c1) tail = 0));
                 c2 = (if flush then write_lmt c1 else c1)
             in Continue (c2\<lparr>lmt := lmt_upd (lmt c2) score ch\<rparr>, score, sc))) \<and>
   (\<forall>li vi ti. li < 19 \<and> vi < 21 \<and> 0 < ti \<and> ti < 28
      \<longrightarrow> ComposeHangul [leads ! li, 0x314F + int vi, hyphen, tails ! ti] =
            [precomposed (li, vi, ti)]) \<and>
   (\<forall>li vi vj. li < 19 \<and> vi < 21 \<and> vj < 21
      \<longrightarrow> ComposeHangul [leads ! li, 0x314F + int vi, 0x314F + int vj] =
            [precomposed (li, vi, 0), precomposed (11, vj, 0)])"
proof (intro conjI allI impI)
  fix c c1 :: composer and ch :: rune and isTail :: bool and sc p :: int
  assume "read c = ((ch, isTail, None), c1) \<and> (IsJaeum ch \<or> IsMoeum ch)"
  then show "Compose_iter (c, sc, p) =
            (let score = (if IsMoeum ch then medial else if isTail then tail else lead);
                 flush = (score \<le> sc \<and>
                          \<not> (score = tail \<and> sc = medial \<and> lmt_at (lmt c1) tail = 0));
                 c2 = (if flush then write_lmt c1 else c1)
             in Continue (c2\<lparr>lmt := lmt_upd (lmt c2) score ch\<rparr>, score, sc))"
    using Compose_iter_jamo [of c ch isTail c1 sc p] by (simp add: Let_def)
next
  fix li vi ti :: nat
  assume "li < 19 \<and> vi < 21 \<and> 0 < ti \<and> ti < 28"
  then show "ComposeHangul [leads ! li, 0x314F + int vi, hyphen, tails ! ti] =
            [precomposed (li, vi, ti)]"
    by (simp add: ComposeHangul_marked)
next
  fix li vi vj :: nat
  assume "li < 19 \<and> vi < 21 \<and> vj < 21"
  then show "ComposeHangul [leads ! li, 0x314F + int vi, 0x314F + int vj] =
            [precomposed (li, vi, 0), precomposed (11, vj, 0)]"
    by (simp add: ComposeHangul_two_vowels)
qed

theorem C2_flush_rule_witness:
  "Compose_iter (\<lparr>r = [0x314F], buf = [], lmt = (0x3131, 0x314F, 0)\<rparr>, 1, 0) =
     Continue (\<lparr>r = [], buf = [0xAC00], lmt = (0, 0x314F, 0)\<rparr>, 1, 1) \<and>
   Compose_iter (\<lparr>r = [0x2D, 0x3134], buf = [], lmt = (0x314E, 0x314F, 0)\<rparr>, 1, 0) =
     Continue (\<lparr>r = [], buf = [], lmt = (0x314E, 0x314F, 0x3134)\<rparr>, 2, 1) \<and>
   ComposeHangul [0x314E, 0x314F, 0x2D, 0x3134] = [0xD55C] \<and>
   ComposeHangul [0x3131, 0x314F, 0x314F] = [0xAC00, 0xC544]"
proof -
  let ?a = "\<lparr>r = [0x314F], buf = [], lmt = (0x3131, 0x314F, 0)\<rparr>"
  let ?b = "\<lparr>r = [0x2D, 0x3134], buf = [], lmt = (0x314E, 0x314F, 0)\<rparr>"
  have ra: "read ?a = ((0x314F, False, None), ?a\<lparr>r := []\<rparr>)"
    by (simp add: read_def hyphen_def)
  have rb: "read ?b = ((0x3134, True, None), ?b\<lparr>r := []\<rparr>)"
    by (simp add: read_def hyphen_def)
  have j: "Join 0x3131 0x314F 0 = 0xAC00"
    by (simp add: Join_def lead_index_def vowel_index_def tail_index_def leads_def tails_def
        medial_index_def)
  from C2_flush_rule [THEN conjunct1, rule_format, of ?a "0x314F" False "?a\<lparr>r := []\<rparr>" 1 0] ra
  have 1: "Compose_iter (?a, 1, 0) =
     Continue (\<lparr>r = [], buf = [0xAC00], lmt = (0, 0x314F, 0)\<rparr>, 1, 1)"
    by (simp add: IsMoeum_def Let_def lead_def medial_def tail_def write_lmt_def ieung_def eu_def j)
  from C2_flush_rule [THEN conjunct1, rule_format, of ?b "0x3134" True "?b\<lparr>r := []\<rparr>" 1 0] rb
  have 2: "Compose_iter (?b, 1, 0) =
     Continue (\<lparr>r = [], buf = [], lmt = (0x314E, 0x314F, 0x3134)\<rparr>, 2, 1)"
    by (simp add: IsMoeum_def IsJaeum_def Let_def lead_def medial_def tail_def)
  from C2_flush_rule [THEN conjunct2, THEN conjunct1, rule_format, of 18 0 4]
  have 3: "ComposeHangul [0x314E, 0x314F, 0x2D, 0x3134] = [0xD55C]"
    by (simp add: leads_def tails_def precomposed_def hyphen_def)
  from C2_flush_rule [THEN conjunct2, THEN conjunct2, rule_format, of 0 0 0]
  have 4: "ComposeHangul [0x3131, 0x314F, 0x314F] = [0xAC00, 0xC544]"
    by (simp add: leads_def precomposed_def)
  from 1 2 3 4 show ?thesis by simp
qed

text \<open>
  C3. The claim gives U+D55C U+ADF8 U+B97C U+B77C U+C774 U+C988 (six syllables) as the
  composition of the fourteen runes of the documentation's example. The composer does
  not return that string.
\<close>

theorem C3_counterexample:
  "ComposeHangul [0x314E, 0x314F, 0x2D, 0x3134, 0x3131, 0x3161, 0x2D, 0x3139, 0x3139, 0x314F,
                  0x3147, 0x3163, 0x3148, 0x3161]
   \<noteq> [0xD55C, 0xADF8, 0xB97C, 0xB77C, 0xC774, 0xC988]"
  by code_simp

text \<open>
  C3, amended. The marked tail U+3139 closes the syllable opened by U+3131 U+3161, so
  the example composes to the five syllables U+D55C U+AE00 U+B77C U+C774 U+C988.
\<close>

theorem C3_hangulize:
  "ComposeHangul [0x314E, 0x314F, 0x2D, 0x3134, 0x3131, 0x3161, 0x2D, 0x3139, 0x3139, 0x314F,
                  0x3147, 0x3163, 0x3148, 0x3161]
   = [0xD55C, 0xAE00, 0xB77C, 0xC774, 0xC988]"
  by code_simp

text \<open>
  C4. The claim says that an input without Hangul code points is returned exactly. The
  input U+0061 U+002D U+0062 has no Hangul code point and loses its hyphen.
\<close>

theorem C4_counterexample:
  "\<not> IsHangul 0x61 \<and> \<not> IsHangul 0x2D \<and> \<not> IsHangul 0x62 \<and>
   ComposeHangul [0x61, 0x2D, 0x62] \<noteq> [0x61, 0x2D, 0x62]"
  by code_simp

text \<open>
  C4, amended. An input without Hangul code points is returned with its hyphens removed
  and every other code point kept, in order; nothing is inserted. An input that has
  neither Hangul code points nor hyphens is therefore returned exactly.
\<close>

theorem C4_passthrough:
  assumes "list_all (\<lambda>ch. \<not> IsHangul ch) w"
  shows "ComposeHangul w = filter (\<lambda>ch. ch \<noteq> hyphen) w"
proof -
  let ?c = "\<lparr>r = w, buf = [], lmt = (0, 0, 0)\<rparr>"
  from assms have "\<forall>ch \<in> set (r ?c). \<not> IsHangul ch"
    by (simp add: list_all_iff)
  from loop_nonhangul [OF this, of 0 0]
  obtain c' sc' p' where "Compose_loop (?c, 0, 0) = (c', sc', p')" "lmt c' = (0, 0, 0)"
    "buf c' = filter (\<lambda>x. x \<noteq> hyphen) w"
    by auto
  then show ?thesis
    by (simp add: ComposeHangul_def Compose_def write_lmt_empty)
qed

theorem C4_passthrough_witness:
  "ComposeHangul [0x61, 0x2D, 0x62, 0x20, 0x21] = [0x61, 0x62, 0x20, 0x21] \<and>
   ComposeHangul [0x61, 0x62, 0x20, 0x21] = [0x61, 0x62, 0x20, 0x21]"
  using C4_passthrough [of "[0x61, 0x2D, 0x62, 0x20, 0x21]"]
    C4_passthrough [of "[0x61, 0x62, 0x20, 0x21]"]
  by (simp add: IsHangul_def IsJaeum_def IsMoeum_def hyphen_def)

text \<open>
  C5. The claim says that a lead consonant held in the buffer takes over the medial
  and tail of an incoming syllable whose split lead is the null-onset consonant, and
  that the lead U+3131 followed by the syllable U+C544 therefore composes to U+AC00.
  The pre-check and the composed-syllable branch both compare the split lead with the
  compatibility letter U+3147, while the split lead of U+C544 is the conjoining
  U+110B, so neither test holds: the lead is flushed with the filler vowel and the
  syllable follows unchanged, two syllables U+ADF8 U+C544.
\<close>

theorem C5_attach_misses:
  "fst (Split 0xC544) = 0x110B \<and> ieung = 0x3147 \<and>
   ComposeHangul [0x3131, 0xC544] = [0xADF8, 0xC544]"
  by code_simp

text \<open>
  C6. After a vowel, a consonant that the read found behind the marker is stored in
  the tail slot of the open buffer and nothing is flushed; a consonant read without
  the marker flushes the buffer and becomes the lead of a new syllable. So for a
  consonant that can be both a lead and a tail, lead + vowel + marker + consonant is
  one syllable with that tail, while lead + vowel + consonant is two syllables: the
  open one without tail, then the consonant with the filler vowel EU.
\<close>

theorem C6_marked_tail:
  "(\<forall>c ch c1 p.
      read c = ((ch, True, None), c1) \<and> IsJaeum ch
      \<longrightarrow> Compose_iter (c, medial, p) =
            Continue (c1\<lparr>lmt := lmt_upd (lmt c1) tail ch\<rparr>, tail, medial) \<and>
          buf c1 = buf c) \<and>
   (\<forall>c ch c1 sc p.
      read c = ((ch, False, None), c1) \<and> IsJaeum ch \<and> 0 \<le> sc
      \<longrightarrow> Compose_iter (c, sc, p) = Continue ((write_lmt c1)\<lparr>lmt := (ch, 0, 0)\<rparr>, lead, sc)) \<and>
   (\<forall>li vi lj tj. li < 19 \<and> vi < 21 \<and> lj < 19 \<and> 0 < tj \<and> tj < 28 \<and> leads ! lj = tails ! tj
      \<longrightarrow> ComposeHangul [leads ! li, 0x314F + int vi, hyphen, leads ! lj] =
            [precomposed (li, vi, tj)] \<and>
          ComposeHangul [leads ! li, 0x314F + int vi, leads ! lj] =
            [precomposed (li, vi, 0), precomposed (lj, 18, 0)])"
proof (intro conjI allI impI)
  fix c c1 :: composer and ch :: rune and p :: int
  assume a: "read c = ((ch, True, None), c1) \<and> IsJaeum ch"
  then have "\<not> IsMoeum ch" by (auto simp: IsJaeum_def IsMoeum_def)
  with a show "Compose_iter (c, medial, p) =
            Continue (c1\<lparr>lmt := lmt_upd (lmt c1) tail ch\<rparr>, tail, medial)"
    using Compose_iter_jamo [of c ch True c1 medial p]
    by (simp add: Let_def medial_def tail_def)
  from a show "buf c1 = buf c" by (simp add: read_fields)
next
  fix c c1 :: composer and ch :: rune and sc p :: int
  assume a: "read c = ((ch, False, None), c1) \<and> IsJaeum ch \<and> 0 \<le> sc"
  then have "\<not> IsMoeum ch" by (auto simp: IsJaeum_def IsMoeum_def)
  with a show "Compose_iter (c, sc, p) = Continue ((write_lmt c1)\<lparr>lmt := (ch, 0, 0)\<rparr>, lead, sc)"
    using Compose_iter_jamo [of c ch False c1 sc p]
    by (simp add: Let_def lead_def medial_def tail_def lmt_write_lmt)
next
  fix li vi lj tj :: nat
  assume a: "li < 19 \<and> vi < 21 \<and> lj < 19 \<and> 0 < tj \<and> tj < 28 \<and> leads ! lj = tails ! tj"
  then show "ComposeHangul [leads ! li, 0x314F + int vi, hyphen, leads ! lj] =
            [precomposed (li, vi, tj)]"
    using ComposeHangul_marked [of li vi tj] by simp
  from a have "li < 19" "vi < 21" "lj < 19" by simp_all
  then show "ComposeHangul [leads ! li, 0x314F + int vi, leads ! lj] =
            [precomposed (li, vi, 0), precomposed (lj, 18, 0)]"
    by (rule ComposeHangul_unmarked)
qed

theorem C6_marked_tail_witness:
  "Compose_iter (\<lparr>r = [0x2D, 0x3134], buf = [], lmt = (0x314E, 0x314F, 0)\<rparr>, 1, 0) =
     Continue (\<lparr>r = [], buf = [], lmt = (0x314E, 0x314F, 0x3134)\<rparr>, 2, 1) \<and>
   Compose_iter (\<lparr>r = [0x3134], buf = [], lmt = (0x314E, 0x314F, 0)\<rparr>, 1, 0) =
     Continue (\<lparr>r = [], buf = [0xD558], lmt = (0x3134, 0, 0)\<rparr>, 0, 1) \<and>
   ComposeHangul [0x314E, 0x314F, 0x2D, 0x3134] = [0xD55C] \<and>
   ComposeHangul [0x314E, 0x314F, 0x3134] = [0xD558, 0xB290]"
proof -
  let ?a = "\<lparr>r = [0x2D, 0x3134], buf = [], lmt = (0x314E, 0x314F, 0)\<rparr>"
  let ?b = "\<lparr>r = [0x3134], buf = [], lmt = (0x314E, 0x314F, 0)\<rparr>"
  have ra: "read ?a = ((0x3134, True, None), ?a\<lparr>r := []\<rparr>)"
    by (simp add: read_def hyphen_def)
  have rb: "read ?b = ((0x3134, False, None), ?b\<lparr>r := []\<rparr>)"
    by (simp add: read_def hyphen_def)
  have j: "Join 0x314E 0x314F 0 = 0xD558"
    by (simp add: Join_def lead_index_def vowel_index_def tail_index_def leads_def tails_def
        medial_index_def)
  from C6_marked_tail [THEN conjunct1, rule_format, of ?a "0x3134" "?a\<lparr>r := []\<rparr>" 0] ra
  have 1: "Compose_iter (?a, 1, 0) =
     Continue (\<lparr>r = [], buf = [], lmt = (0x314E, 0x314F, 0x3134)\<rparr>, 2, 1)"
    by (simp add: IsJaeum_def medial_def tail_def)
  from C6_marked_tail [THEN conjunct2, THEN conjunct1, rule_format, of ?b "0x3134" "?b\<lparr>r := []\<rparr>" 1 0] rb
  have 2: "Compose_iter (?b, 1, 0) =
     Continue (\<lparr>r = [], buf = [0xD558], lmt = (0x3134, 0, 0)\<rparr>, 0, 1)"
    by (simp add: IsJaeum_def Let_def lead_def medial_def tail_def write_lmt_def j)
  from C6_marked_tail [THEN conjunct2, THEN conjunct2, rule_format, of 18 0 2 4]
  have 3: "ComposeHangul [0x314E, 0x314F, 0x2D, 0x3134] = [0xD55C] \<and>
           ComposeHangul [0x314E, 0x314F, 0x3134] = [0xD558, 0xB290]"
    by (simp add: leads_def tails_def precomposed_def hyphen_def)
  from 1 2 3 show ?thesis by simp
qed

text \<open>
  C7. A string made only of precomposed Hangul syllables (code points U+AC00 to U+D7A3)
  is returned unchanged: each syllable is split into the buffer and joined again when
  the next one arrives or the input ends.
\<close>

theorem C7_composed_identity:
  assumes "list_all (\<lambda>ch. 0xAC00 \<le> ch \<and> ch \<le> 0xD7A3) w"
  shows "ComposeHangul w = w"
proof -
  let ?c = "\<lparr>r = w, buf = [], lmt = (0, 0, 0)\<rparr>"
  obtain c' sc' where "Compose_loop (?c, 0, 0) = (c', sc', sc')" "0 \<le> sc'"
    "buf (write_lmt c') = buf (write_lmt ?c) @ w"
    using loop_composed_word [OF assms, of 0 ?c 0] by (auto simp: lead_def)
  then show ?thesis
    by (simp add: ComposeHangul_def Compose_def write_lmt_def)
qed

theorem C7_composed_identity_witness:
  "ComposeHangul [0xD55C, 0xAE00, 0xB77C, 0xC774, 0xC988] = [0xD55C, 0xAE00, 0xB77C, 0xC774, 0xC988]"
  using C7_composed_identity [of "[0xD55C, 0xAE00, 0xB77C, 0xC774, 0xC988]"]
  by simp

text \<open>
  C8. The flush of a buffer that is not empty writes the syllable joined from the
  buffer with an empty lead replaced by IEUNG and an empty medial replaced by EU, the
  tail slot passed on as it is, and clears the buffer. Hence a lone lead consonant
  composes to the one syllable of that lead with the vowel EU and no tail, and a lone
  vowel to the one syllable of the lead IEUNG with that vowel.
\<close>

theorem C8_fill_missing:
  "(\<forall>c l m t. lmt c = (l, m, t) \<and> (l, m, t) \<noteq> (0, 0, 0)
      \<longrightarrow> write_lmt c =
            c\<lparr>buf := buf c @ [Join (if l = 0 then ieung else l) (if m = 0 then eu else m) t],
              lmt := (0, 0, 0)\<rparr>) \<and>
   (\<forall>li. li < 19 \<longrightarrow> ComposeHangul [leads ! li] = [precomposed (li, 18, 0)]) \<and>
   (\<forall>vi. vi < 21 \<longrightarrow> ComposeHangul [0x314F + int vi] = [precomposed (11, vi, 0)])"
proof (intro conjI allI impI)
  fix c :: composer and l m t :: rune
  assume "lmt c = (l, m, t) \<and> (l, m, t) \<noteq> (0, 0, 0)"
  then show "write_lmt c =
            c\<lparr>buf := buf c @ [Join (if l = 0 then ieung else l) (if m = 0 then eu else m) t],
              lmt := (0, 0, 0)\<rparr>"
    by (simp add: write_lmt_def Let_def lead_def medial_def tail_def)
next
  fix li :: nat
  assume "li < 19"
  then show "ComposeHangul [leads ! li] = [precomposed (li, 18, 0)]"
    by (rule ComposeHangul_bare_lead)
next
  fix vi :: nat
  assume "vi < 21"
  then show "ComposeHangul [0x314F + int vi] = [precomposed (11, vi, 0)]"
    by (rule ComposeHangul_bare_vowel)
qed

theorem C8_fill_missing_witness:
  "write_lmt \<lparr>r = [], buf = [], lmt = (0x3131, 0, 0)\<rparr> =
     \<lparr>r = [], buf = [0xADF8], lmt = (0, 0, 0)\<rparr> \<and>
   write_lmt \<lparr>r = [], buf = [], lmt = (0, 0, 0x3134)\<rparr> =
     \<lparr>r = [], buf = [0xC740], lmt = (0, 0, 0)\<rparr> \<and>
   ComposeHangul [0x3131] = [0xADF8] \<and>
   ComposeHangul [0x314F] = [0xC544]"
proof -
  have j: "Join 0x3131 eu 0 = 0xADF8" "Join ieung eu 0x3134 = 0xC740"
    by (simp_all add: Join_def lead_index_def vowel_index_def tail_index_def leads_def tails_def
        medial_index_def ieung_def eu_def)
  from C8_fill_missing [THEN conjunct1, rule_format,
      of "\<lparr>r = [], buf = [], lmt = (0x3131, 0, 0)\<rparr>" "0x3131" 0 0]
  have 1: "write_lmt \<lparr>r = [], buf = [], lmt = (0x3131, 0, 0)\<rparr> =
     \<lparr>r = [], buf = [0xADF8], lmt = (0, 0, 0)\<rparr>"
    by (simp add: j)
  from C8_fill_missing [THEN conjunct1, rule_format,
      of "\<lparr>r = [], buf = [], lmt = (0, 0, 0x3134)\<rparr>" 0 0 "0x3134"]
  have 2: "write_lmt \<lparr>r = [], buf = [], lmt = (0, 0, 0x3134)\<rparr> =
     \<lparr>r = [], buf = [0xC740], lmt = (0, 0, 0)\<rparr>"
    by (simp add: j)
  from C8_fill_missing [THEN conjunct2, THEN conjunct1, rule_format, of 0]
  have 3: "ComposeHangul [0x3131] = [0xADF8]"
    by (simp add: leads_def precomposed_def)
  from C8_fill_missing [THEN conjunct2, THEN conjunct2, rule_format, of 0]
  have 4: "ComposeHangul [0x314F] = [0xC544]"
    by (simp add: precomposed_def)
  from 1 2 3 4 show ?thesis by simp
qed

text \<open>
  C9. For a word without white space whose trimmed and lowercased form is not a key of
  the dictionary, \<open>Transliterate\<close> returns the word itself and the error \<open>nil\<close>
  (\<open>None\<close>), for every dictionary and every lowercasing function.
\<close>

theorem C9_dictionary_miss:
  assumes "list_all (\<lambda>ch. \<not> IsSpace ch) word"
    and "dict (ToLower (strings_Trim word cutset)) = None"
  shows "Transliterate ToLower dict word = (word, None)"
proof -
  from assms(1) have "\<forall>ch \<in> set word. \<not> IsSpace ch"
    by (simp add: list_all_iff)
  then have "strings_Fields word = (if word = [] then [] else [word])"
    by (rule strings_Fields_no_space)
  with assms(2) show ?thesis
    by (simp add: Transliterate_def Let_def)
qed

theorem C9_dictionary_miss_witness:
  "Transliterate (map (\<lambda>ch. if 0x41 \<le> ch \<and> ch \<le> 0x5A then ch + 0x20 else ch))
     [[0x68, 0x69] \<mapsto> [0x48, 0x48, 0x41, 0x59]]
     [0x22, 0x5A, 0x7A, 0x7A, 0x21] = ([0x22, 0x5A, 0x7A, 0x7A, 0x21], None)"
  using C9_dictionary_miss [of "[0x22, 0x5A, 0x7A, 0x7A, 0x21]"
      "[[0x68, 0x69] \<mapsto> [0x48, 0x48, 0x41, 0x59]]"
      "map (\<lambda>ch. if 0x41 \<le> ch \<and> ch \<le> 0x5A then ch + 0x20 else ch)"]
  by (simp add: IsSpace_def strings_Trim_def cutset_def)

text \<open>
  C10. The output of the composer never contains the hyphen U+002D, whatever the input:
  a hyphen is only ever read as a marker, and no joined syllable is a hyphen.
\<close>

theorem C10_no_hyphen: "hyphen \<notin> set (ComposeHangul w)"
proof -
  let ?s = "(\<lparr>r = w, buf = [], lmt = (0, 0, 0)\<rparr>, 0 :: int, 0 :: int)"
  have "hyphen \<notin> set (buf (fst (Compose_loop ?s)))"
    by (rule loop_no_hyphen) simp
  moreover obtain c' sc' p' where "Compose_loop ?s = (c', sc', p')"
    by (cases "Compose_loop ?s")
  ultimately show ?thesis
    by (simp add: ComposeHangul_def Compose_def write_lmt_no_hyphen)
qed

end
